theory Spec2Isabelle
  imports Complex_Main "HOL-Library.Sublist" "HOL-Library.Multiset"
begin

section \<open>Strings and character classes\<close>

text \<open>
  A Go string is modelled as a HOL \<open>string\<close>, one \<open>char\<close> per byte.  The datasets, the
  trigger keywords and the column names of the repository are ASCII; on ASCII text the
  functions below agree with \<^verbatim>\<open>strings.ToLower\<close>, the regular expression
  \<^verbatim>\<open>[^\w\s]\<close> and \<^verbatim>\<open>strings.Fields\<close>.  A byte above 127 is treated as a character that is
  neither a word character nor white space and becomes a space, as Go does with every
  character outside ASCII whose lower case is outside ASCII.
\<close>

definition upper_letters :: string where
  "upper_letters = ''ABCDEFGHIJKLMNOPQRSTUVWXYZ''"

definition lower_letters :: string where
  "lower_letters = ''abcdefghijklmnopqrstuvwxyz''"

definition digit_chars :: string where
  "digit_chars = ''0123456789''"

definition is_upper :: "char \<Rightarrow> bool" where
  "is_upper c = (c \<in> set upper_letters)"

text \<open>\<^verbatim>\<open>strings.ToLower\<close> on one ASCII character.\<close>

definition lower_char :: "char \<Rightarrow> char" where
  "lower_char c = (case map_of (zip upper_letters lower_letters) c of Some d \<Rightarrow> d | None \<Rightarrow> c)"

definition ToLower :: "string \<Rightarrow> string" where
  "ToLower s = map lower_char s"

text \<open>The class \<^verbatim>\<open>\w\<close> of Go's regexp package: \<^verbatim>\<open>[0-9A-Za-z_]\<close>.\<close>

definition is_word :: "char \<Rightarrow> bool" where
  "is_word c = (c \<in> set (digit_chars @ upper_letters @ lower_letters @ ''_''))"

text \<open>The class \<^verbatim>\<open>\s\<close> of Go's regexp package: tab, newline, form feed, carriage return, space.\<close>

definition re_space :: "char \<Rightarrow> bool" where
  "re_space c = (c \<in> set [CHR 0x09, CHR 0x0A, CHR 0x0C, CHR 0x0D, CHR '' ''])"

text \<open>\<^verbatim>\<open>re.ReplaceAllString(text, " ")\<close> for \<^verbatim>\<open>re = [^\w\s]\<close>: every character outside both
  classes becomes one space.\<close>

definition strip_punct :: "string \<Rightarrow> string" where
  "strip_punct s = map (\<lambda>c. if is_word c \<or> re_space c then c else CHR '' '') s"

text \<open>White space as \<^verbatim>\<open>strings.Fields\<close> sees it (\<^verbatim>\<open>unicode.IsSpace\<close> on ASCII): the five
  characters above and the vertical tab.\<close>

definition field_space :: "char \<Rightarrow> bool" where
  "field_space c = (c \<in> set [CHR 0x09, CHR 0x0A, CHR 0x0B, CHR 0x0C, CHR 0x0D, CHR '' ''])"

text \<open>\<^verbatim>\<open>strings.Fields\<close>: the maximal runs of characters that are not white space, in order.
  \<open>cur\<close> is the run being read.\<close>

fun fields_from :: "string \<Rightarrow> string \<Rightarrow> string list" where
  "fields_from cur [] = (if cur = [] then [] else [cur])"
| "fields_from cur (c # cs) =
     (if field_space c
      then (if cur = [] then fields_from [] cs else cur # fields_from [] cs)
      else fields_from (cur @ [c]) cs)"

definition Fields :: "string \<Rightarrow> string list" where
  "Fields s = fields_from [] s"

text \<open>\<^verbatim>\<open>func (bm *BM25) Tokenize(text string) []string\<close>.  The method reads no field of the
  receiver.\<close>

definition Tokenize :: "string \<Rightarrow> string list" where
  "Tokenize text = filter (\<lambda>w. length w > 2) (Fields (strip_punct (ToLower text)))"

text \<open>What the documentation of \<open>Tokenize\<close> calls a lower-case alphanumeric character, with
  the underscore that \<^verbatim>\<open>\w\<close> admits.\<close>

definition is_lower_word :: "char \<Rightarrow> bool" where
  "is_lower_word c = (is_word c \<and> \<not> is_upper c)"


section \<open>Floating-point values\<close>

text \<open>
  Go's \<^verbatim>\<open>float64\<close> is modelled with exact arithmetic on the finite values and with the
  special values of IEEE 754, so that a division by zero or a logarithm of a non-positive
  number is visible in the model as it is in the program: \<open>0/0\<close> is \<open>NaN\<close>, \<open>x/0\<close> is an
  infinity.  Rounding and overflow of finite results are not modelled, and there is one
  zero (every divisor of the program is a sum or a quotient of non-negative zeros, so it is
  never the negative zero).
\<close>

datatype f64 = Fin real | PInf | NInf | NaN

fun f_neg :: "f64 \<Rightarrow> f64" where
  "f_neg (Fin x) = Fin (- x)"
| "f_neg PInf = NInf"
| "f_neg NInf = PInf"
| "f_neg NaN = NaN"

fun f_add :: "f64 \<Rightarrow> f64 \<Rightarrow> f64" where
  "f_add (Fin x) (Fin y) = Fin (x + y)"
| "f_add NaN _ = NaN"
| "f_add _ NaN = NaN"
| "f_add PInf NInf = NaN"
| "f_add NInf PInf = NaN"
| "f_add PInf _ = PInf"
| "f_add _ PInf = PInf"
| "f_add NInf _ = NInf"
| "f_add _ NInf = NInf"

definition f_sub :: "f64 \<Rightarrow> f64 \<Rightarrow> f64" where
  "f_sub x y = f_add x (f_neg y)"

fun f_mul :: "f64 \<Rightarrow> f64 \<Rightarrow> f64" where
  "f_mul (Fin x) (Fin y) = Fin (x * y)"
| "f_mul NaN _ = NaN"
| "f_mul _ NaN = NaN"
| "f_mul PInf (Fin y) = (if y = 0 then NaN else if 0 < y then PInf else NInf)"
| "f_mul NInf (Fin y) = (if y = 0 then NaN else if 0 < y then NInf else PInf)"
| "f_mul (Fin x) PInf = (if x = 0 then NaN else if 0 < x then PInf else NInf)"
| "f_mul (Fin x) NInf = (if x = 0 then NaN else if 0 < x then NInf else PInf)"
| "f_mul PInf PInf = PInf"
| "f_mul NInf NInf = PInf"
| "f_mul PInf NInf = NInf"
| "f_mul NInf PInf = NInf"

fun f_div :: "f64 \<Rightarrow> f64 \<Rightarrow> f64" where
  "f_div (Fin x) (Fin y) =
     (if y \<noteq> 0 then Fin (x / y) else if 0 < x then PInf else if x < 0 then NInf else NaN)"
| "f_div NaN _ = NaN"
| "f_div _ NaN = NaN"
| "f_div (Fin x) PInf = Fin 0"
| "f_div (Fin x) NInf = Fin 0"
| "f_div PInf (Fin y) = (if 0 \<le> y then PInf else NInf)"
| "f_div NInf (Fin y) = (if 0 \<le> y then NInf else PInf)"
| "f_div PInf PInf = NaN"
| "f_div PInf NInf = NaN"
| "f_div NInf PInf = NaN"
| "f_div NInf NInf = NaN"

text \<open>\<^verbatim>\<open>math.Log\<close>: \<open>Log(0) = -Inf\<close>, \<open>Log(x < 0) = NaN\<close>, \<open>Log(+Inf) = +Inf\<close>.\<close>

fun f_log :: "f64 \<Rightarrow> f64" where
  "f_log (Fin x) = (if 0 < x then Fin (ln x) else if x = 0 then NInf else NaN)"
| "f_log PInf = PInf"
| "f_log NInf = NaN"
| "f_log NaN = NaN"

text \<open>The comparisons \<^verbatim>\<open><\<close> and \<^verbatim>\<open><=\<close>; both are false when an operand is \<open>NaN\<close>.\<close>

fun f_lt :: "f64 \<Rightarrow> f64 \<Rightarrow> bool" where
  "f_lt (Fin x) (Fin y) = (x < y)"
| "f_lt NaN _ = False"
| "f_lt _ NaN = False"
| "f_lt NInf NInf = False"
| "f_lt NInf _ = True"
| "f_lt PInf _ = False"
| "f_lt (Fin x) PInf = True"
| "f_lt (Fin x) NInf = False"

fun f_le :: "f64 \<Rightarrow> f64 \<Rightarrow> bool" where
  "f_le (Fin x) (Fin y) = (x \<le> y)"
| "f_le NaN _ = False"
| "f_le _ NaN = False"
| "f_le NInf _ = True"
| "f_le PInf PInf = True"
| "f_le PInf _ = False"
| "f_le (Fin x) PInf = True"
| "f_le (Fin x) NInf = False"

text \<open>The conversion \<^verbatim>\<open>float64(n)\<close> of an \<^verbatim>\<open>int\<close>.\<close>

definition f_of_int :: "int \<Rightarrow> f64" where
  "f_of_int n = Fin (real_of_int n)"

section \<open>The ranking engine (package bm25)\<close>

text \<open>Everything that can end a call without a result: the errors \<open>Search\<close> returns and a
  run-time panic (an index out of range, a negative capacity given to \<^verbatim>\<open>make\<close>).  \<open>IOError\<close>
  is the error of \<^verbatim>\<open>os.Open\<close> or of the CSV reader, passed on unchanged.\<close>

datatype error = UnknownDomain string | IOError string | CSVTooShort | Panic

text \<open>\<^verbatim>\<open>type BM25 struct\<close>.  Counts and lengths are Go \<^verbatim>\<open>int\<close>s (64 bits); they are bounded
  by the sizes of slices held in memory and cannot overflow, so they are integers here.\<close>

record BM25 =
  bm_k1 :: f64
  bm_b :: f64
  bm_corpus :: "string list list"
  bm_docLengths :: "int list"
  bm_avgdl :: f64
  bm_idf :: "string \<rightharpoonup> f64"
  bm_docFreqs :: "string \<rightharpoonup> int"
  bm_N :: int

text \<open>\<^verbatim>\<open>func New(k1, b float64) *BM25\<close>: the other fields have their zero values.\<close>

definition New :: "f64 \<Rightarrow> f64 \<Rightarrow> BM25" where
  "New k1 b = \<lparr>bm_k1 = k1, bm_b = b, bm_corpus = [], bm_docLengths = [], bm_avgdl = Fin 0,
     bm_idf = Map.empty, bm_docFreqs = Map.empty, bm_N = 0\<rparr>"

text \<open>Reading a \<^verbatim>\<open>map[string]int\<close>: a missing key reads as 0; \<^verbatim>\<open>m[k]++\<close>.\<close>

definition lookup0 :: "(string \<rightharpoonup> int) \<Rightarrow> string \<Rightarrow> int" where
  "lookup0 m k = (case m k of None \<Rightarrow> 0 | Some c \<Rightarrow> c)"

definition incr :: "(string \<rightharpoonup> int) \<Rightarrow> string \<Rightarrow> (string \<rightharpoonup> int)" where
  "incr m k = m(k \<mapsto> lookup0 m k + 1)"

text \<open>The inner loop of the document-frequency pass of \<open>Fit\<close>, over the words of one document,
  with the \<open>seen\<close> map of that document.\<close>

fun doc_freq_words :: "string list \<Rightarrow> (string \<rightharpoonup> int) \<Rightarrow> (string \<Rightarrow> bool) \<Rightarrow> (string \<rightharpoonup> int)" where
  "doc_freq_words [] df seen = df"
| "doc_freq_words (word # ws) df seen =
     (if \<not> seen word then doc_freq_words ws (incr df word) (seen(word := True))
      else doc_freq_words ws df seen)"

text \<open>The outer loop: every document starts with an empty \<open>seen\<close> map.\<close>

fun doc_freq_corpus :: "string list list \<Rightarrow> (string \<rightharpoonup> int) \<Rightarrow> (string \<rightharpoonup> int)" where
  "doc_freq_corpus [] df = df"
| "doc_freq_corpus (doc # ds) df = doc_freq_corpus ds (doc_freq_words doc df (\<lambda>_. False))"

text \<open>\<^verbatim>\<open>math.Log((float64(bm.N-freq)+0.5)/(float64(freq)+0.5) + 1.0)\<close>\<close>

definition idf_value :: "int \<Rightarrow> int \<Rightarrow> f64" where
  "idf_value n freq =
     f_log (f_add (f_div (f_add (f_of_int (n - freq)) (Fin 0.5)) (f_add (f_of_int freq) (Fin 0.5)))
                  (Fin 1))"

text \<open>\<^verbatim>\<open>func (bm *BM25) Fit(documents []string)\<close>, as a function from the engine before the
  call to the engine after it.  With no document only \<open>N\<close> is assigned.  The last loop
  assigns \<open>idf[word]\<close> once for every key of \<open>docFreqs\<close>, so its result does not depend on
  the order in which the map is visited; entries of \<open>idf\<close> and \<open>docFreqs\<close> left by an
  earlier call stay.\<close>

definition Fit :: "BM25 \<Rightarrow> string list \<Rightarrow> BM25" where
  "Fit bm documents =
     (let n = int (length documents) in
      if n = 0 then bm\<lparr>bm_N := n\<rparr>
      else
        let corpus = map Tokenize documents;
            docLengths = map (\<lambda>tokens. int (length tokens)) corpus;
            totalLen = sum_list docLengths;
            avgdl = f_div (f_of_int totalLen) (f_of_int n);
            docFreqs = doc_freq_corpus corpus (bm_docFreqs bm);
            idf = (\<lambda>word. case docFreqs word of
                             Some freq \<Rightarrow> Some (idf_value n freq)
                           | None \<Rightarrow> bm_idf bm word)
        in bm\<lparr>bm_corpus := corpus, bm_docLengths := docLengths, bm_avgdl := avgdl,
               bm_idf := idf, bm_docFreqs := docFreqs, bm_N := n\<rparr>)"

text \<open>\<^verbatim>\<open>type Result struct { Index int; Score float64 }\<close> of package bm25.\<close>

record ScoreResult =
  r_Index :: nat
  r_Score :: f64

text \<open>The term frequencies of one document.\<close>

definition term_freqs :: "string list \<Rightarrow> (string \<rightharpoonup> int)" where
  "term_freqs doc = fold (\<lambda>word m. incr m word) doc Map.empty"

text \<open>What one query token with a known IDF adds to the score of a document:
  \<^verbatim>\<open>idf * numerator / denominator\<close> with
  \<^verbatim>\<open>numerator = tf * (k1 + 1.0)\<close> and
  \<^verbatim>\<open>denominator = tf + k1*(1.0-b+b*docLen/avgdl)\<close>.\<close>

definition term_score :: "BM25 \<Rightarrow> f64 \<Rightarrow> f64 \<Rightarrow> f64 \<Rightarrow> f64" where
  "term_score bm docLen tf idf =
     (let numerator = f_mul tf (f_add (bm_k1 bm) (Fin 1));
          denominator = f_add tf (f_mul (bm_k1 bm)
             (f_add (f_sub (Fin 1) (bm_b bm)) (f_div (f_mul (bm_b bm) docLen) (bm_avgdl bm))))
      in f_div (f_mul idf numerator) denominator)"

text \<open>The loop over the query tokens; \<open>score\<close> is the sum so far.\<close>

fun score_tokens :: "BM25 \<Rightarrow> f64 \<Rightarrow> (string \<rightharpoonup> int) \<Rightarrow> string list \<Rightarrow> f64 \<Rightarrow> f64" where
  "score_tokens bm docLen termFreqs [] score = score"
| "score_tokens bm docLen termFreqs (token # ts) score =
     (case bm_idf bm token of
        Some idf \<Rightarrow>
          score_tokens bm docLen termFreqs ts
            (f_add score (term_score bm docLen (f_of_int (lookup0 termFreqs token)) idf))
      | None \<Rightarrow> score_tokens bm docLen termFreqs ts score)"

text \<open>The loop over the corpus; \<open>idx\<close> is the position of \<open>doc\<close>.  Reading
  \<^verbatim>\<open>bm.docLengths[idx]\<close> and writing \<^verbatim>\<open>results[idx]\<close> panic out of range.\<close>

fun score_docs :: "BM25 \<Rightarrow> string list \<Rightarrow> nat \<Rightarrow> string list list \<Rightarrow> ScoreResult list
    \<Rightarrow> error + ScoreResult list" where
  "score_docs bm queryTokens idx [] results = Inr results"
| "score_docs bm queryTokens idx (doc # rest) results =
     (if length (bm_docLengths bm) \<le> idx then Inl Panic
      else
        let docLen = f_of_int (bm_docLengths bm ! idx);
            score = score_tokens bm docLen (term_freqs doc) queryTokens (Fin 0)
        in if length results \<le> idx then Inl Panic
           else score_docs bm queryTokens (Suc idx) rest
                  (results[idx := \<lparr>r_Index = idx, r_Score = score\<rparr>]))"

text \<open>\<^verbatim>\<open>func (bm *BM25) Score(query string) []Result\<close>\<close>

definition Score :: "BM25 \<Rightarrow> string \<Rightarrow> error + ScoreResult list" where
  "Score bm query =
     (if bm_N bm < 0 then Inl Panic
      else score_docs bm (Tokenize query) 0 (bm_corpus bm)
             (replicate (nat (bm_N bm)) \<lparr>r_Index = 0, r_Score = Fin 0\<rparr>))"

section \<open>The domain search service (package search)\<close>

record Config =
  File :: string
  SearchCols :: "string list"
  OutputCols :: "string list"

text \<open>The two configuration maps, as association lists with distinct keys.\<close>

definition DomainConfigs :: "(string \<times> Config) list" where
  "DomainConfigs =
    [(''strategy'', \<lparr>File = ''strategies.csv'',
        SearchCols = [''Strategy Name'', ''Category'', ''Keywords'', ''Best For'', ''Data Requirements''],
        OutputCols = [''Strategy Name'', ''Category'', ''Keywords'', ''Data Requirements'',
          ''Time Horizon'', ''Best For'', ''Complexity'', ''Key Parameters'',
          ''Performance Characteristics'', ''Market Conditions'', ''Capital Requirements'',
          ''Avoid For'']\<rparr>),
     (''indicator'', \<lparr>File = ''indicators.csv'',
        SearchCols = [''Indicator Name'', ''Category'', ''Keywords'', ''Best For''],
        OutputCols = [''Indicator Name'', ''Category'', ''Keywords'', ''Formula/Description'',
          ''Time-Domain'', ''Best For'', ''Parameters'', ''Interpretation'', ''Limitations'',
          ''Combine With'', ''Avoid For'']\<rparr>),
     (''risk'', \<lparr>File = ''risk-management.csv'',
        SearchCols = [''Risk Control'', ''Category'', ''Keywords'', ''Description'', ''Best For''],
        OutputCols = [''Risk Control'', ''Category'', ''Keywords'', ''Description'', ''Parameters'',
          ''Best For'', ''Implementation'', ''Advantages'', ''Disadvantages'', ''Critical For'']\<rparr>),
     (''data'', \<lparr>File = ''data-sources.csv'',
        SearchCols = [''Data Type'', ''Source'', ''Keywords'', ''Description'', ''Best For''],
        OutputCols = [''Data Type'', ''Source'', ''Keywords'', ''Description'', ''Format'',
          ''Frequency'', ''Best For'', ''Requirements'', ''Typical Cost'']\<rparr>),
     (''anti-pattern'', \<lparr>File = ''anti-patterns.csv'',
        SearchCols = [''Category'', ''Issue'', ''Keywords'', ''Description''],
        OutputCols = [''Category'', ''Issue'', ''Keywords'', ''Description'', ''Do'', ''Don't'',
          ''Severity'', ''Platform'']\<rparr>)]"

definition DomainKeywords :: "(string \<times> string list) list" where
  "DomainKeywords =
    [(''strategy'', [''strategy'', ''trading'', ''algorithm'', ''arbitrage'', ''ofi'', ''hawkes'',
        ''kalman'', ''momentum'', ''mean-reversion'', ''pairs'', ''market-making'', ''statistical'',
        ''execution'', ''vwap'', ''ml'', ''backtest'']),
     (''indicator'', [''indicator'', ''ema'', ''sma'', ''rsi'', ''macd'', ''bollinger'', ''atr'',
        ''stochastic'', ''adx'', ''vwap'', ''obv'', ''tci'', ''signal'', ''oscillator'',
        ''moving average'']),
     (''risk'', [''risk'', ''position'', ''sizing'', ''kelly'', ''stop'', ''loss'', ''drawdown'',
        ''var'', ''cvar'', ''leverage'', ''margin'', ''hedge'', ''portfolio'', ''limit'', ''exposure'']),
     (''data'', [''data'', ''tick'', ''order book'', ''l2'', ''ohlcv'', ''bars'', ''futures'',
        ''options'', ''on-chain'', ''news'', ''sentiment'', ''fundamental'', ''volume'', ''feed'',
        ''api'']),
     (''anti-pattern'', [''mistake'', ''error'', ''avoid'', ''don't'', ''anti-pattern'', ''pitfall'',
        ''bias'', ''overfitting'', ''look-ahead'', ''survivorship'', ''slippage'', ''bug'',
        ''wrong''])]"

text \<open>\<^verbatim>\<open>type Result struct\<close> of package search.  A row of a dataset and a projected row are
  Go maps from column name to value.\<close>

type_synonym row = "string \<rightharpoonup> string"

record Result =
  res_Domain :: string
  res_Query :: string
  res_File :: string
  res_Count :: int
  res_Results :: "row list"

text \<open>\<^verbatim>\<open>strings.Contains(s, substr)\<close>\<close>

fun Contains :: "string \<Rightarrow> string \<Rightarrow> bool" where
  "Contains [] substr = (substr = [])"
| "Contains (c # cs) substr = (prefix substr (c # cs) \<or> Contains cs substr)"

text \<open>The inner loop of \<open>DetectDomain\<close>: the number of keywords that occur in the query.\<close>

definition keyword_score :: "string \<Rightarrow> string list \<Rightarrow> int" where
  "keyword_score queryLower keywords =
     fold (\<lambda>kw score. if Contains queryLower kw then score + 1 else score) keywords 0"

text \<open>The map \<open>scores\<close> after the first loop.  Every domain is assigned once, so the map
  does not depend on the order in which \<open>DomainKeywords\<close> is visited.\<close>

definition domain_scores :: "string \<Rightarrow> (string \<rightharpoonup> int)" where
  "domain_scores queryLower =
     map_of (map (\<lambda>(domain, keywords). (domain, keyword_score queryLower keywords)) DomainKeywords)"

text \<open>The second loop, \<^verbatim>\<open>for domain, score := range scores\<close>.  Go visits the keys of a map in
  an order that the language leaves unspecified and that the runtime varies from one loop to
  the next.  The order of this visit is the parameter \<open>order\<close>: a list of the keys of
  \<open>scores\<close>, each once.\<close>

definition iteration_order :: "string list \<Rightarrow> bool" where
  "iteration_order order = (mset order = mset (map fst DomainKeywords))"

definition best_step :: "(string \<rightharpoonup> int) \<Rightarrow> string \<Rightarrow> string \<times> int \<Rightarrow> string \<times> int" where
  "best_step scores domain best =
     (case scores domain of
        Some score \<Rightarrow> if snd best < score then (domain, score) else best
      | None \<Rightarrow> best)"

text \<open>\<^verbatim>\<open>func DetectDomain(query string) string\<close>\<close>

definition DetectDomain :: "string list \<Rightarrow> string \<Rightarrow> string" where
  "DetectDomain order query =
     (let queryLower = ToLower query;
          scores = domain_scores queryLower;
          best = fold (best_step scores) order (''strategy'', 0)
      in if snd best = 0 then ''strategy'' else fst best)"

text \<open>One row of \<open>loadCSV\<close>: \<^verbatim>\<open>row[header] = record[i]\<close> for every \<open>i\<close> below both lengths.\<close>

definition make_row :: "string list \<Rightarrow> string list \<Rightarrow> row" where
  "make_row headers record = fold (\<lambda>(header, v) row. row(header \<mapsto> v)) (zip headers record) Map.empty"

text \<open>\<^verbatim>\<open>func loadCSV(filepath string)\<close>.  Its argument here is what \<^verbatim>\<open>os.Open\<close> followed by
  \<^verbatim>\<open>csv.NewReader(file).ReadAll()\<close> gives for the path: an error or the rows of the file.\<close>

definition loadCSV :: "error + string list list \<Rightarrow> error + row list" where
  "loadCSV readAll =
     (case readAll of
        Inl err \<Rightarrow> Inl err
      | Inr records \<Rightarrow>
          (case records of
             headers # rest \<Rightarrow>
               if length records < 2 then Inl CSVTooShort else Inr (map (make_row headers) rest)
           | [] \<Rightarrow> Inl CSVTooShort))"

text \<open>\<^verbatim>\<open>strings.Join(parts, " ")\<close>\<close>

fun Join :: "string list \<Rightarrow> string" where
  "Join [] = []"
| "Join [p] = p"
| "Join (p # ps) = p @ '' '' @ Join ps"

text \<open>The document of one row: the values of the search columns the row has.\<close>

definition document :: "Config \<Rightarrow> row \<Rightarrow> string" where
  "document config row = Join (List.map_filter row (SearchCols config))"

text \<open>The projection of a row to the output columns it has.\<close>

definition project :: "Config \<Rightarrow> row \<Rightarrow> row" where
  "project config row =
     fold (\<lambda>col result. case row col of Some v \<Rightarrow> result(col \<mapsto> v) | None \<Rightarrow> result)
       (OutputCols config) Map.empty"

text \<open>The comparison given to \<^verbatim>\<open>sort.Slice\<close>: \<^verbatim>\<open>ranked[i].Score > ranked[j].Score\<close>.\<close>

definition by_score :: "ScoreResult \<Rightarrow> ScoreResult \<Rightarrow> bool" where
  "by_score ri rj = f_lt (r_Score rj) (r_Score ri)"

text \<open>The loop that takes the top results; \<open>results\<close> is the slice built so far.\<close>

fun collect :: "Config \<Rightarrow> row list \<Rightarrow> int \<Rightarrow> ScoreResult list \<Rightarrow> row list \<Rightarrow> error + row list" where
  "collect config data maxResults [] results = Inr results"
| "collect config data maxResults (r # rs) results =
     (if f_le (r_Score r) (Fin 0) then Inr results
      else if maxResults \<le> int (length results) then Inr results
      else if length data \<le> r_Index r then Inl Panic
      else collect config data maxResults rs (results @ [project config (data ! r_Index r)]))"

text \<open>
  \<^verbatim>\<open>func Search(dataDir, query, domain string, maxResults int) (*Result, error)\<close>.
  Three things the function takes from outside the repository are parameters:
  \<^item> \<open>srt\<close> is \<^verbatim>\<open>sort.Slice\<close>, from the comparison and the slice to the sorted slice;
  \<^item> \<open>order\<close> is the order in which this call visits the map \<open>scores\<close>;
  \<^item> \<open>store dataDir file\<close> is what reading the CSV file at
    \<^verbatim>\<open>filepath.Join(dataDir, file)\<close> gives.

  \<^verbatim>\<open>make([]map[string]string, 0, maxResults)\<close> panics when \<open>maxResults\<close> is negative.
\<close>

definition Search :: "((ScoreResult \<Rightarrow> ScoreResult \<Rightarrow> bool) \<Rightarrow> ScoreResult list \<Rightarrow> ScoreResult list)
    \<Rightarrow> string list \<Rightarrow> (string \<Rightarrow> string \<Rightarrow> error + string list list)
    \<Rightarrow> string \<Rightarrow> string \<Rightarrow> string \<Rightarrow> int \<Rightarrow> error + Result" where
  "Search srt order store dataDir query domain maxResults =
     (let domain = (if domain = [] then DetectDomain order query else domain) in
      case map_of DomainConfigs domain of
        None \<Rightarrow> Inl (UnknownDomain domain)
      | Some config \<Rightarrow>
          (case loadCSV (store dataDir (File config)) of
             Inl err \<Rightarrow> Inl err
           | Inr data \<Rightarrow>
               (case Score (Fit (New (Fin 1.5) (Fin 0.75)) (map (document config) data)) query of
                  Inl err \<Rightarrow> Inl err
                | Inr ranked \<Rightarrow>
                    if maxResults < 0 then Inl Panic
                    else
                      (case collect config data maxResults (srt by_score ranked) [] of
                         Inl err \<Rightarrow> Inl err
                       | Inr results \<Rightarrow>
                           Inr \<lparr>res_Domain = domain, res_Query = query, res_File = File config,
                                res_Count = int (length results), res_Results = results\<rparr>))))"

text \<open>The results \<open>Score\<close> writes for the documents \<open>docs\<close> at the positions from \<open>idx\<close> on,
  when no index is out of range (lemma \<open>score_docs_run\<close>).\<close>

fun scored_from :: "BM25 \<Rightarrow> string list \<Rightarrow> nat \<Rightarrow> string list list \<Rightarrow> ScoreResult list" where
  "scored_from bm queryTokens idx [] = []"
| "scored_from bm queryTokens idx (doc # rest) =
     \<lparr>r_Index = idx,
      r_Score = score_tokens bm (f_of_int (bm_docLengths bm ! idx)) (term_freqs doc) queryTokens (Fin 0)\<rparr>
     # scored_from bm queryTokens (Suc idx) rest"

text \<open>The quantities the specification names: the document frequency \<open>df(t)\<close>, the number
  of documents that contain the term at least once, and the smoothed formula
  \<open>ln((N - df + 0.5) / (df + 0.5) + 1)\<close>.\<close>

definition doc_frequency :: "string list \<Rightarrow> string \<Rightarrow> nat" where
  "doc_frequency documents t = length (filter (\<lambda>d. t \<in> set (Tokenize d)) documents)"

definition idf_formula :: "nat \<Rightarrow> nat \<Rightarrow> real" where
  "idf_formula n df = ln ((real n - real df + 0.5) / (real df + 0.5) + 1)"

section \<open>Auxiliary notions for the statements about Search\<close>

text \<open>The scored results the last loop of \<open>Search\<close> keeps, when \<open>n\<close> results were kept
  before (lemma \<open>collect_top_hits\<close>): the loop appends the projection of each of them.\<close>

fun top_hits :: "int \<Rightarrow> ScoreResult list \<Rightarrow> nat \<Rightarrow> ScoreResult list" where
  "top_hits maxResults [] n = []"
| "top_hits maxResults (r # rs) n =
     (if f_le (r_Score r) (Fin 0) then []
      else if maxResults \<le> int n then []
      else r # top_hits maxResults rs (Suc n))"

text \<open>
  What the documentation of \<^verbatim>\<open>sort.Slice\<close> promises: the slice is rearranged (the result is
  a permutation), and when the comparison is a strict weak ordering of the elements the
  result is sorted, no element being less than an earlier one.  The documentation says that
  the sort is not guaranteed to be stable: equal elements may end in any order.
\<close>

definition strict_weak_order :: "('a \<Rightarrow> 'a \<Rightarrow> bool) \<Rightarrow> 'a set \<Rightarrow> bool" where
  "strict_weak_order lt A =
     ((\<forall>x\<in>A. \<not> lt x x)
      \<and> (\<forall>x\<in>A. \<forall>y\<in>A. \<forall>z\<in>A. lt x y \<and> lt y z \<longrightarrow> lt x z)
      \<and> (\<forall>x\<in>A. \<forall>y\<in>A. \<forall>z\<in>A. lt x z \<longrightarrow> lt x y \<or> lt y z))"

definition sort_Slice_contract :: "(('a \<Rightarrow> 'a \<Rightarrow> bool) \<Rightarrow> 'a list \<Rightarrow> 'a list) \<Rightarrow> bool" where
  "sort_Slice_contract srt =
     (\<forall>lt xs. mset (srt lt xs) = mset xs
        \<and> (strict_weak_order lt (set xs) \<longrightarrow> sorted_wrt (\<lambda>x y. \<not> lt y x) (srt lt xs)))"

text \<open>Two sorting functions that keep this promise: insertion sort, which leaves equal
  elements in their order, and insertion sort of the reversed slice, which reverses them.\<close>

fun insert_by :: "('a \<Rightarrow> 'a \<Rightarrow> bool) \<Rightarrow> 'a \<Rightarrow> 'a list \<Rightarrow> 'a list" where
  "insert_by lt x [] = [x]"
| "insert_by lt x (y # ys) = (if lt y x then y # insert_by lt x ys else x # y # ys)"

definition isort_by :: "('a \<Rightarrow> 'a \<Rightarrow> bool) \<Rightarrow> 'a list \<Rightarrow> 'a list" where
  "isort_by lt xs = foldr (insert_by lt) xs []"


text \<open>Two different domains tie for the highest keyword count of a query, and the count is
  positive.\<close>

definition detect_ties :: "string \<Rightarrow> bool" where
  "detect_ties query =
     (\<exists>(d1, kws1)\<in>set DomainKeywords. \<exists>(d2, kws2)\<in>set DomainKeywords.
        d1 \<noteq> d2
      \<and> 0 < keyword_score (ToLower query) kws1
      \<and> keyword_score (ToLower query) kws1 = keyword_score (ToLower query) kws2
      \<and> (\<forall>(d, kws)\<in>set DomainKeywords.
            keyword_score (ToLower query) kws \<le> keyword_score (ToLower query) kws1))"

section \<open>A worked example\<close>

text \<open>A small record store, two orders in which the map of scores may be visited, and the
  configurations of two domains, for the example runs below.\<close>

definition example_records :: "string list list" where
  "example_records =
     [[''Keywords'', ''Parameters''], [''rsi'', ''first''], [''macd'', ''second''], [''rsi'', ''third'']]"

definition example_store :: "string \<Rightarrow> string \<Rightarrow> error + string list list" where
  "example_store dataDir file =
     (if file = ''indicators.csv'' then Inr example_records
      else if file = ''strategies.csv'' then Inr [[''Keywords''], [''vwap'']]
      else Inl (IOError ''open''))"

definition example_rows :: "row list" where
  "example_rows = map (make_row [''Keywords'', ''Parameters''])
     [[''rsi'', ''first''], [''macd'', ''second''], [''rsi'', ''third'']]"

definition order1 :: "string list" where
  "order1 = [''strategy'', ''indicator'', ''risk'', ''data'', ''anti-pattern'']"

definition order2 :: "string list" where
  "order2 = [''indicator'', ''risk'', ''data'', ''anti-pattern'', ''strategy'']"

definition indicator_config :: Config where
  "indicator_config = snd (DomainConfigs ! 1)"

definition strategy_config :: Config where
  "strategy_config = snd (DomainConfigs ! 0)"





section \<open>Tokenizer: proofs\<close>

lemma lower_char_not_upper: "\<not> is_upper (lower_char c)"
proof (cases "map_of (zip upper_letters lower_letters) c")
  case None
  then have "c \<notin> set upper_letters"
    by (simp add: upper_letters_def lower_letters_def split: if_splits)
  with None show ?thesis by (simp add: lower_char_def is_upper_def)
next
  case (Some d)
  then have "d \<in> set lower_letters"
    by (meson map_of_SomeD set_zip_rightD)
  then have "d \<notin> set upper_letters"
    by (auto simp: upper_letters_def lower_letters_def)
  with Some show ?thesis by (simp add: lower_char_def is_upper_def)
qed

lemma strip_punct_chars:
  assumes "c \<in> set (strip_punct s)"
  shows "is_word c \<or> field_space c"
proof -
  from assms obtain d where d: "d \<in> set s"
    and c: "c = (if is_word d \<or> re_space d then d else CHR '' '')"
    by (auto simp: strip_punct_def)
  show ?thesis
  proof (cases "is_word d \<or> re_space d")
    case True
    with c show ?thesis by (auto simp: re_space_def field_space_def)
  next
    case False
    with c show ?thesis by (simp add: field_space_def)
  qed
qed

lemma strip_punct_not_upper:
  assumes "c \<in> set (strip_punct s)" and "\<forall>d\<in>set s. \<not> is_upper d"
  shows "\<not> is_upper c"
proof -
  have sp: "\<not> is_upper (CHR '' '')"
    by (simp add: is_upper_def upper_letters_def)
  from assms(1) obtain d where "d \<in> set s" and "c = d \<or> c = CHR '' ''"
    by (auto simp: strip_punct_def split: if_splits)
  with assms(2) sp show ?thesis by auto
qed

lemma fields_from_chars:
  assumes "w \<in> set (fields_from cur s)" and "c \<in> set w"
  shows "(c \<in> set cur \<or> c \<in> set s) \<and> (c \<in> set cur \<or> \<not> field_space c)"
  using assms
proof (induction cur s rule: fields_from.induct)
  case (1 cur)
  then show ?case by (auto split: if_splits)
next
  case (2 cur c' cs)
  then show ?case by (auto split: if_splits)
qed

lemma Fields_chars:
  assumes "w \<in> set (Fields s)" and "c \<in> set w"
  shows "c \<in> set s \<and> \<not> field_space c"
  using fields_from_chars [OF assms [unfolded Fields_def]] by simp

lemma Tokenize_chars:
  assumes "t \<in> set (Tokenize text)" and "c \<in> set t"
  shows "is_lower_word c"
proof -
  from assms(1) have t: "t \<in> set (Fields (strip_punct (ToLower text)))"
    by (simp add: Tokenize_def)
  from Fields_chars [OF t assms(2)]
  have c: "c \<in> set (strip_punct (ToLower text))" and ns: "\<not> field_space c"
    by simp_all
  from strip_punct_chars [OF c] ns have w: "is_word c" by simp
  have "\<forall>d\<in>set (ToLower text). \<not> is_upper d"
    by (auto simp: ToLower_def lower_char_not_upper)
  from strip_punct_not_upper [OF c this] w show ?thesis
    by (simp add: is_lower_word_def)
qed

lemma Tokenize_length:
  assumes "t \<in> set (Tokenize text)"
  shows "length t > 2"
  using assms by (simp add: Tokenize_def)

lemma lower_char_id: "\<not> is_upper c \<Longrightarrow> lower_char c = c"
  by (auto simp: lower_char_def is_upper_def upper_letters_def lower_letters_def)

text \<open>
  Claim C4.  Every token that \<open>Tokenize\<close> produces is lower-case (lower-casing it again
  changes nothing), consists of characters of \<^verbatim>\<open>[0-9a-z_]\<close> only, and is longer than two
  characters; the empty text has no token.
\<close>

theorem Tokenize_tokens:
  "(\<forall>t \<in> set (Tokenize text).
      ToLower t = t \<and> (\<forall>c \<in> set t. is_word c \<and> \<not> is_upper c) \<and> length t > 2)
   \<and> Tokenize [] = []"
proof -
  have "ToLower t = t" if "t \<in> set (Tokenize text)" for t
  proof -
    have "\<forall>c\<in>set t. \<not> is_upper c"
      using Tokenize_chars [OF that] by (simp add: is_lower_word_def)
    then show ?thesis
      unfolding ToLower_def by (induction t) (simp_all add: lower_char_id)
  qed
  moreover have "Tokenize [] = []"
    by (simp add: Tokenize_def Fields_def strip_punct_def ToLower_def)
  ultimately show ?thesis
    using Tokenize_chars Tokenize_length by (auto simp: is_lower_word_def)
qed

lemmas tokenize_eval = Tokenize_def Fields_def strip_punct_def ToLower_def lower_char_def
  is_word_def re_space_def field_space_def upper_letters_def lower_letters_def digit_chars_def

lemma Tokenize_example:
  "Tokenize ''RSI, Bollinger-Bands: an MACD_12 ok!'' = [''rsi'', ''bollinger'', ''bands'', ''macd_12'']"
  by (simp add: tokenize_eval)

theorem Tokenize_tokens_witness:
  "Tokenize ''RSI, Bollinger-Bands: an MACD_12 ok!'' = [''rsi'', ''bollinger'', ''bands'', ''macd_12'']
   \<and> ToLower ''macd_12'' = ''macd_12''
   \<and> list_all (\<lambda>c. is_word c \<and> \<not> is_upper c) ''macd_12''
   \<and> length ''macd_12'' > 2"
  using Tokenize_tokens [of "''RSI, Bollinger-Bands: an MACD_12 ok!''"]
  unfolding Tokenize_example by (simp add: list_all_iff)

section \<open>Index construction: proofs\<close>

lemma doc_freq_words_apply:
  "doc_freq_words ws df seen w =
     (if w \<in> set ws \<and> \<not> seen w then Some (lookup0 df w + 1) else df w)"
  by (induction ws arbitrary: df seen) (auto simp: incr_def lookup0_def)

lemma doc_freq_corpus_apply:
  "doc_freq_corpus ds df w =
     (if \<exists>d\<in>set ds. w \<in> set d
      then Some (lookup0 df w + int (length (filter (\<lambda>d. w \<in> set d) ds)))
      else df w)"
proof (induction ds arbitrary: df)
  case Nil
  then show ?case by simp
next
  case (Cons d ds)
  show ?case
    by (simp add: Cons.IH doc_freq_words_apply lookup0_def)
qed

lemma filter_Tokenize_count:
  "length (filter (\<lambda>d. w \<in> set d) (map Tokenize documents)) = doc_frequency documents w"
  by (simp add: doc_frequency_def filter_map comp_def)

lemma doc_frequency_pos_iff:
  "0 < doc_frequency documents w \<longleftrightarrow> (\<exists>d\<in>set documents. w \<in> set (Tokenize d))"
  by (auto simp: doc_frequency_def filter_empty_conv)

lemma doc_frequency_le: "doc_frequency documents w \<le> length documents"
  by (simp add: doc_frequency_def)

lemma idf_arg_pos:
  assumes "df \<le> n"
  shows "0 < (real n - real df + 0.5) / (real df + 0.5)"
  using assms by simp

lemma idf_value_formula:
  assumes "df \<le> n"
  shows "idf_value (int n) (int df) = Fin (idf_formula n df)"
proof -
  have "0 \<le> real df" by simp
  then have "real df + 0.5 \<noteq> 0" by linarith
  moreover have "0 < (real n - real df + 0.5) / (real df + 0.5) + 1"
    using idf_arg_pos [OF assms] by linarith
  moreover have "real_of_int (int n - int df) = real n - real df"
    by simp
  ultimately show ?thesis
    by (simp add: idf_value_def idf_formula_def f_of_int_def)
qed

lemma idf_formula_pos:
  assumes "df \<le> n"
  shows "0 < idf_formula n df"
proof -
  have "1 < (real n - real df + 0.5) / (real df + 0.5) + 1"
    using idf_arg_pos [OF assms] by linarith
  then show ?thesis
    unfolding idf_formula_def by (rule ln_gt_zero)
qed

lemma Fit_New_empty: "Fit (New k1 b) [] = New k1 b"
  by (simp add: Fit_def New_def)

lemma Fit_New_idf:
  assumes "documents \<noteq> []"
  shows "bm_idf (Fit (New k1 b) documents) t =
    (if doc_frequency documents t = 0 then None
     else Some (Fin (idf_formula (length documents) (doc_frequency documents t))))"
proof -
  have "bm_idf (Fit (New k1 b) documents) t =
      (case doc_freq_corpus (map Tokenize documents) Map.empty t of
         Some freq \<Rightarrow> Some (idf_value (int (length documents)) freq) | None \<Rightarrow> None)"
    using assms by (simp add: Fit_def New_def Let_def split: option.splits)
  also have "doc_freq_corpus (map Tokenize documents) Map.empty t =
      (if doc_frequency documents t = 0 then None else Some (int (doc_frequency documents t)))"
    unfolding doc_freq_corpus_apply filter_Tokenize_count
    using doc_frequency_pos_iff [of documents t] by (auto simp: lookup0_def)
  finally show ?thesis
    by (simp add: idf_value_formula [OF doc_frequency_le])
qed

lemma Fit_New_fields:
  assumes "documents \<noteq> []"
  shows "bm_k1 (Fit (New k1 b) documents) = k1"
    and "bm_b (Fit (New k1 b) documents) = b"
    and "bm_corpus (Fit (New k1 b) documents) = map Tokenize documents"
    and "bm_docLengths (Fit (New k1 b) documents) = map (\<lambda>d. int (length (Tokenize d))) documents"
    and "bm_N (Fit (New k1 b) documents) = int (length documents)"
    and "bm_avgdl (Fit (New k1 b) documents) =
           Fin (real_of_int (\<Sum>d\<leftarrow>documents. int (length (Tokenize d))) / real (length documents))"
  using assms by (simp_all add: Fit_def New_def Let_def f_of_int_def comp_def)








section \<open>Scoring: proofs\<close>

lemma Score_New: "Score (New k1 b) query = Inr []"
  by (simp add: Score_def New_def)

lemma length_scored_from [simp]: "length (scored_from bm qts idx docs) = length docs"
  by (induction docs arbitrary: idx) simp_all

lemma score_docs_run:
  assumes "idx + length rest \<le> length (bm_docLengths bm)"
    and "idx + length rest \<le> length results"
  shows "score_docs bm qts idx rest results =
    Inr (take idx results @ scored_from bm qts idx rest @ drop (idx + length rest) results)"
  using assms
proof (induction rest arbitrary: idx results)
  case Nil
  then show ?case by simp
next
  case (Cons doc rest)
  let ?r = "\<lparr>r_Index = idx,
      r_Score = score_tokens bm (f_of_int (bm_docLengths bm ! idx)) (term_freqs doc) qts (Fin 0)\<rparr>"
  have lt: "idx < length (bm_docLengths bm)" "idx < length results"
    using Cons.prems by simp_all
  have step: "score_docs bm qts idx (doc # rest) results =
      score_docs bm qts (Suc idx) rest (results[idx := ?r])"
    using lt by (simp add: Let_def)
  have ih: "score_docs bm qts (Suc idx) rest (results[idx := ?r]) =
      Inr (take (Suc idx) (results[idx := ?r]) @ scored_from bm qts (Suc idx) rest
           @ drop (Suc idx + length rest) (results[idx := ?r]))"
    using Cons.prems by (intro Cons.IH) simp_all
  have t: "take (Suc idx) (results[idx := ?r]) = take idx results @ [?r]"
    using lt by (simp add: take_Suc_conv_app_nth)
  have d: "drop (Suc idx + length rest) (results[idx := ?r]) = drop (idx + length (doc # rest)) results"
    by simp
  show ?case
    unfolding step ih t d by simp
qed

lemma Score_consistent:
  assumes "length (bm_docLengths bm) = length (bm_corpus bm)"
    and "bm_N bm = int (length (bm_corpus bm))"
  shows "Score bm query = Inr (scored_from bm (Tokenize query) 0 (bm_corpus bm))"
  using assms score_docs_run [of 0 "bm_corpus bm" bm
      "replicate (length (bm_corpus bm)) \<lparr>r_Index = 0, r_Score = Fin 0\<rparr>" "Tokenize query"]
  by (simp add: Score_def)

lemma Score_Fit_New:
  "Score (Fit (New k1 b) documents) query =
     Inr (scored_from (Fit (New k1 b) documents) (Tokenize query) 0 (map Tokenize documents))"
proof (cases "documents = []")
  case True
  then show ?thesis by (simp add: Fit_New_empty Score_New)
next
  case False
  then show ?thesis
    using Score_consistent [of "Fit (New k1 b) documents" query]
    by (simp add: Fit_New_fields)
qed

lemma map_Index_scored_from:
  "map r_Index (scored_from bm qts idx docs) = [idx..<idx + length docs]"
proof (induction docs arbitrary: idx)
  case Nil
  then show ?case by simp
next
  case (Cons d ds)
  then show ?case by (simp add: upt_rec)
qed



lemma lookup0_fold_incr:
  "lookup0 (fold (\<lambda>w m. incr m w) doc m) t = lookup0 m t + int (count_list doc t)"
  by (induction doc arbitrary: m) (auto simp: incr_def lookup0_def)

lemma lookup0_term_freqs: "lookup0 (term_freqs doc) t = int (count_list doc t)"
  by (simp add: term_freqs_def lookup0_fold_incr) (simp add: lookup0_def)

lemma term_score_Fin:
  assumes "bm_k1 bm = Fin k" and "bm_b bm = Fin \<beta>" and "bm_avgdl bm = Fin a"
    and "a \<noteq> 0" and "t + k * (1 - \<beta> + \<beta> * dl / a) \<noteq> 0"
  shows "term_score bm (Fin dl) (Fin t) (Fin i) =
    Fin (i * (t * (k + 1)) / (t + k * (1 - \<beta> + \<beta> * dl / a)))"
  using assms by (simp add: term_score_def f_sub_def Let_def)

lemma denominator_pos:
  fixes k \<beta> dl a t :: real
  assumes "0 < k" and "0 \<le> \<beta>" and "\<beta> \<le> 1" and "0 \<le> dl" and "0 < a" and "0 \<le> t"
    and "\<beta> < 1 \<or> 0 < dl"
  shows "0 < t + k * (1 - \<beta> + \<beta> * dl / a)"
proof -
  have q: "0 \<le> \<beta> * dl / a"
    using assms by simp
  have "0 < 1 - \<beta> + \<beta> * dl / a"
  proof (cases "\<beta> < 1")
    case True
    with q show ?thesis by linarith
  next
    case False
    with assms have "\<beta> = 1" and "0 < dl" by auto
    with \<open>0 < a\<close> show ?thesis by simp
  qed
  with \<open>0 < k\<close> have "0 < k * (1 - \<beta> + \<beta> * dl / a)"
    by (rule mult_pos_pos)
  with \<open>0 \<le> t\<close> show ?thesis by linarith
qed


lemma sum_list_int_length:
  "(\<Sum>d\<leftarrow>documents. int (length (Tokenize d))) = int (\<Sum>d\<leftarrow>documents. length (Tokenize d))"
  by (induction documents) simp_all

lemma Fit_New_avgdl:
  "\<exists>a. bm_avgdl (Fit (New k1 b) documents) = Fin a \<and> 0 \<le> a
      \<and> ((\<exists>d\<in>set documents. Tokenize d \<noteq> []) \<longrightarrow> 0 < a)
      \<and> ((\<forall>d\<in>set documents. Tokenize d = []) \<longrightarrow> a = 0)"
proof (cases "documents = []")
  case True
  then show ?thesis by (simp add: Fit_New_empty) (simp add: New_def)
next
  case False
  let ?total = "\<Sum>d\<leftarrow>documents. length (Tokenize d)"
  have a: "bm_avgdl (Fit (New k1 b) documents) = Fin (real ?total / real (length documents))"
    using Fit_New_fields(6) [OF False, of k1 b] by (simp add: sum_list_int_length)
  have n: "0 < real (length documents)"
    using False by simp
  have pos: "0 < ?total" if "d \<in> set documents" and "Tokenize d \<noteq> []" for d
  proof -
    have "length (Tokenize d) \<le> ?total"
      using that(1) by (intro member_le_sum_list) auto
    moreover have "0 < length (Tokenize d)"
      using that(2) by simp
    ultimately show ?thesis by linarith
  qed
  have zero: "?total = 0" if "\<forall>d\<in>set documents. Tokenize d = []"
    using that by (induction documents) simp_all
  show ?thesis
    unfolding a using n pos zero by auto
qed

lemma Fit_New_idf_Some:
  assumes "bm_idf (Fit (New k1 b) documents) t = Some i"
  shows "(\<exists>x. i = Fin x \<and> 0 < x) \<and> (\<exists>d\<in>set documents. t \<in> set (Tokenize d))"
proof (cases "documents = []")
  case True
  with assms show ?thesis by (simp add: Fit_New_empty) (simp add: New_def)
next
  case False
  from assms have "doc_frequency documents t \<noteq> 0"
    and "i = Fin (idf_formula (length documents) (doc_frequency documents t))"
    by (auto simp: Fit_New_idf [OF False] split: if_splits)
  then show ?thesis
    using idf_formula_pos [OF doc_frequency_le, of documents t]
      doc_frequency_pos_iff [of documents t] by auto
qed

lemma Fit_New_params:
  "bm_k1 (Fit (New k1 b) documents) = k1" "bm_b (Fit (New k1 b) documents) = b"
  by (cases "documents = []"; simp add: Fit_New_empty Fit_New_fields; simp add: New_def)+

lemma fresh_term_score:
  assumes idf: "bm_idf (Fit (New (Fin k) (Fin \<beta>)) documents) token = Some i"
    and k: "0 < k" and b: "0 \<le> \<beta>" "\<beta> \<le> 1"
    and dl: "0 \<le> dl" "\<beta> < 1 \<or> 0 < dl" and t: "0 \<le> t"
  shows "\<exists>x a. i = Fin x \<and> 0 < x \<and> bm_avgdl (Fit (New (Fin k) (Fin \<beta>)) documents) = Fin a \<and> 0 < a
    \<and> 0 < t + k * (1 - \<beta> + \<beta> * dl / a)
    \<and> term_score (Fit (New (Fin k) (Fin \<beta>)) documents) (Fin dl) (Fin t) i =
        Fin (x * (t * (k + 1)) / (t + k * (1 - \<beta> + \<beta> * dl / a)))"
proof -
  let ?bm = "Fit (New (Fin k) (Fin \<beta>)) documents"
  from Fit_New_idf_Some [OF idf] obtain x d where x: "i = Fin x" "0 < x"
    and d: "d \<in> set documents" "token \<in> set (Tokenize d)"
    by blast
  have "Tokenize d \<noteq> []"
    using d(2) by (cases "Tokenize d") simp_all
  with d(1) have "\<exists>d\<in>set documents. Tokenize d \<noteq> []" ..
  with Fit_New_avgdl [of "Fin k" "Fin \<beta>" documents]
  obtain a where a: "bm_avgdl ?bm = Fin a" "0 < a" by blast
  have den: "0 < t + k * (1 - \<beta> + \<beta> * dl / a)"
    using k b dl a(2) t by (intro denominator_pos) simp_all
  have "term_score ?bm (Fin dl) (Fin t) (Fin x) =
      Fin (x * (t * (k + 1)) / (t + k * (1 - \<beta> + \<beta> * dl / a)))"
    using a den by (intro term_score_Fin) (simp_all add: Fit_New_params)
  with x a den show ?thesis by blast
qed

lemma fresh_score_tokens_nonneg:
  assumes k: "0 < k" and b: "0 \<le> \<beta>" "\<beta> < 1" and dl: "0 \<le> dl" and s: "0 \<le> s"
  shows "\<exists>s'. score_tokens (Fit (New (Fin k) (Fin \<beta>)) documents) (f_of_int dl) (term_freqs doc) ts (Fin s)
           = Fin s' \<and> s \<le> s'"
  using s
proof (induction ts arbitrary: s)
  case Nil
  then show ?case by simp
next
  case (Cons token ts)
  let ?bm = "Fit (New (Fin k) (Fin \<beta>)) documents"
  show ?case
  proof (cases "bm_idf ?bm token")
    case None
    with Cons show ?thesis by simp
  next
    case (Some i)
    let ?t = "real_of_int (lookup0 (term_freqs doc) token)"
    have t: "0 \<le> ?t" by (simp add: lookup0_term_freqs)
    from fresh_term_score [OF Some k b(1) _ _ _ t, of "real_of_int dl"] b(2) dl
    obtain x a where x: "0 < x" and a: "0 < a"
      and den: "0 < ?t + k * (1 - \<beta> + \<beta> * real_of_int dl / a)"
      and ts: "term_score ?bm (Fin (real_of_int dl)) (Fin ?t) i =
        Fin (x * (?t * (k + 1)) / (?t + k * (1 - \<beta> + \<beta> * real_of_int dl / a)))"
      by auto
    let ?c = "x * (?t * (k + 1)) / (?t + k * (1 - \<beta> + \<beta> * real_of_int dl / a))"
    have c: "0 \<le> ?c"
      using x t k den by simp
    from Cons.IH [of "s + ?c"] Cons.prems c obtain s' where
      "score_tokens ?bm (f_of_int dl) (term_freqs doc) ts (Fin (s + ?c)) = Fin s'" and "s + ?c \<le> s'"
      by auto
    with c Some ts show ?thesis
      by (auto simp: f_of_int_def)
  qed
qed

lemma fresh_scored_from_nonneg:
  assumes k: "0 < k" and b: "0 \<le> \<beta>" "\<beta> < 1"
    and len: "idx + length docs \<le> length (bm_docLengths (Fit (New (Fin k) (Fin \<beta>)) documents))"
    and nonneg: "\<forall>x\<in>set (bm_docLengths (Fit (New (Fin k) (Fin \<beta>)) documents)). 0 \<le> x"
    and r: "r \<in> set (scored_from (Fit (New (Fin k) (Fin \<beta>)) documents) qts idx docs)"
  shows "\<exists>s. r_Score r = Fin s \<and> 0 \<le> s"
  using len r
proof (induction docs arbitrary: idx)
  case Nil
  then show ?case by simp
next
  case (Cons doc docs)
  let ?bm = "Fit (New (Fin k) (Fin \<beta>)) documents"
  have "0 \<le> bm_docLengths ?bm ! idx"
    using Cons.prems(1) nonneg by simp
  from fresh_score_tokens_nonneg [OF k b this, of 0 documents doc qts]
  have here: "\<exists>s. score_tokens ?bm (f_of_int (bm_docLengths ?bm ! idx)) (term_freqs doc) qts (Fin 0) = Fin s
      \<and> 0 \<le> s"
    by simp
  from Cons.prems(2) consider "r = \<lparr>r_Index = idx,
      r_Score = score_tokens ?bm (f_of_int (bm_docLengths ?bm ! idx)) (term_freqs doc) qts (Fin 0)\<rparr>"
    | "r \<in> set (scored_from ?bm qts (Suc idx) docs)"
    by auto
  then show ?case
  proof cases
    case 1
    with here show ?thesis by simp
  next
    case 2
    with Cons.IH [of "Suc idx"] Cons.prems(1) show ?thesis by simp
  qed
qed

lemma Fit_New_docLengths_nonneg:
  "\<forall>x\<in>set (bm_docLengths (Fit (New k1 b) documents)). 0 \<le> x"
  by (cases "documents = []"; simp add: Fit_New_empty Fit_New_fields; simp add: New_def)

lemma Fit_New_docLengths_length:
  "length (bm_docLengths (Fit (New k1 b) documents)) = length documents"
  by (cases "documents = []"; simp add: Fit_New_empty Fit_New_fields; simp add: New_def)

lemma fresh_Score_nonneg:
  assumes "0 < k" and "0 \<le> \<beta>" and "\<beta> < 1"
  shows "\<exists>ranked. Score (Fit (New (Fin k) (Fin \<beta>)) documents) query = Inr ranked
     \<and> map r_Index ranked = [0..<length documents]
     \<and> (\<forall>r\<in>set ranked. \<exists>s. r_Score r = Fin s \<and> 0 \<le> s)"
proof -
  let ?bm = "Fit (New (Fin k) (Fin \<beta>)) documents"
  let ?ranked = "scored_from ?bm (Tokenize query) 0 (map Tokenize documents)"
  have "\<exists>s. r_Score r = Fin s \<and> 0 \<le> s" if "r \<in> set ?ranked" for r
    using assms that
    by (intro fresh_scored_from_nonneg [where r = r and idx = 0 and docs = "map Tokenize documents"])
      (simp_all add: Fit_New_docLengths_length Fit_New_docLengths_nonneg)
  then show ?thesis
    by (simp add: Score_Fit_New map_Index_scored_from)
qed












section \<open>Sorting\<close>

lemma mset_insert_by: "mset (insert_by lt x ys) = add_mset x (mset ys)"
  by (induction ys) simp_all

lemma set_insert_by: "set (insert_by lt x ys) = insert x (set ys)"
  by (induction ys) auto

lemma mset_isort_by: "mset (isort_by lt xs) = mset xs"
  unfolding isort_by_def by (induction xs) (simp_all add: mset_insert_by)

lemma set_isort_by: "set (isort_by lt xs) = set xs"
  using mset_isort_by [of lt xs] by (metis set_mset_mset)

lemma sorted_insert_by:
  assumes swo: "strict_weak_order lt A" and x: "x \<in> A" and ys: "set ys \<subseteq> A"
    and sorted: "sorted_wrt (\<lambda>a b. \<not> lt b a) ys"
  shows "sorted_wrt (\<lambda>a b. \<not> lt b a) (insert_by lt x ys)"
  using ys sorted
proof (induction ys)
  case Nil
  then show ?case by simp
next
  case (Cons y ys)
  have y: "y \<in> A" and sub: "set ys \<subseteq> A"
    using Cons.prems(1) by simp_all
  have tail: "sorted_wrt (\<lambda>a b. \<not> lt b a) ys" and head: "\<forall>z\<in>set ys. \<not> lt z y"
    using Cons.prems(2) by simp_all
  show ?case
  proof (cases "lt y x")
    case True
    have "\<not> lt x y"
    proof
      assume "lt x y"
      with True swo x y have "lt x x"
        unfolding strict_weak_order_def by blast
      with swo x show False
        unfolding strict_weak_order_def by blast
    qed
    with True head Cons.IH [OF sub tail] show ?thesis
      by (simp add: set_insert_by)
  next
    case False
    have "\<not> lt z x" if z: "z \<in> set ys" for z
    proof
      assume "lt z x"
      moreover have "z \<in> A" using z sub by blast
      ultimately have "lt z y \<or> lt y x"
        using swo x y unfolding strict_weak_order_def by blast
      with False head z show False by blast
    qed
    with False Cons.prems(2) show ?thesis by simp
  qed
qed

lemma sorted_isort_by:
  assumes "strict_weak_order lt (set xs)"
  shows "sorted_wrt (\<lambda>a b. \<not> lt b a) (isort_by lt xs)"
proof -
  have "sorted_wrt (\<lambda>a b. \<not> lt b a) (foldr (insert_by lt) ys [])
      \<and> set (foldr (insert_by lt) ys []) = set ys" if "set ys \<subseteq> set xs" for ys
    using that
  proof (induction ys)
    case Nil
    then show ?case by simp
  next
    case (Cons y ys)
    then have ih: "sorted_wrt (\<lambda>a b. \<not> lt b a) (foldr (insert_by lt) ys [])"
      and st: "set (foldr (insert_by lt) ys []) = set ys"
      by simp_all
    have "sorted_wrt (\<lambda>a b. \<not> lt b a) (insert_by lt y (foldr (insert_by lt) ys []))"
      using Cons.prems st by (intro sorted_insert_by [OF assms _ _ ih]) auto
    then show ?case by (simp add: set_insert_by st)
  qed
  then show ?thesis
    unfolding isort_by_def by blast
qed

lemma isort_by_contract: "sort_Slice_contract isort_by"
  unfolding sort_Slice_contract_def by (simp add: mset_isort_by sorted_isort_by)


lemma contract_mset: "sort_Slice_contract srt \<Longrightarrow> mset (srt lt xs) = mset xs"
  unfolding sort_Slice_contract_def by blast

lemma contract_set: "sort_Slice_contract srt \<Longrightarrow> set (srt lt xs) = set xs"
  using contract_mset [of srt lt xs] by (metis set_mset_mset)



section \<open>Taking the top results\<close>

lemma collect_top_hits:
  assumes "\<forall>r\<in>set rs. r_Index r < length data"
  shows "collect config data m rs results =
    Inr (results @ map (\<lambda>r. project config (data ! r_Index r)) (top_hits m rs (length results)))"
  using assms by (induction rs arbitrary: results) simp_all






section \<open>Search: proofs\<close>

lemma Search_ranked:
  "\<exists>ranked. Score (Fit (New (Fin 1.5) (Fin 0.75)) documents) query = Inr ranked
     \<and> map r_Index ranked = [0..<length documents]
     \<and> (\<forall>r\<in>set ranked. \<exists>s. r_Score r = Fin s \<and> 0 \<le> s)"
  by (rule fresh_Score_nonneg) simp_all


lemma Search_success:
  assumes c: "sort_Slice_contract srt"
    and cfg: "map_of DomainConfigs (if domain = [] then DetectDomain order query else domain) = Some config"
    and load: "loadCSV (store dataDir (File config)) = Inr data"
    and m: "0 \<le> maxResults"
    and ranked: "Score (Fit (New (Fin 1.5) (Fin 0.75)) (map (document config) data)) query = Inr ranked"
  shows "Search srt order store dataDir query domain maxResults =
    Inr \<lparr>res_Domain = (if domain = [] then DetectDomain order query else domain),
         res_Query = query, res_File = File config,
         res_Count = int (length (top_hits maxResults (srt by_score ranked) 0)),
         res_Results = map (\<lambda>r. project config (data ! r_Index r))
                         (top_hits maxResults (srt by_score ranked) 0)\<rparr>"
proof -
  from Search_ranked [of "map (document config) data" query] ranked
  have idx: "map r_Index ranked = [0..<length data]" by simp
  have "r_Index r < length data" if "r \<in> set ranked" for r
  proof -
    from that have "r_Index r \<in> set (map r_Index ranked)" by simp
    then show ?thesis unfolding idx by simp
  qed
  then have "\<forall>r\<in>set (srt by_score ranked). r_Index r < length data"
    by (simp add: contract_set [OF c])
  from collect_top_hits [OF this, of config maxResults "[]"]
  show ?thesis
    using cfg load m ranked by (simp add: Search_def Let_def)
qed



text \<open>
  Claim C8.  When the dataset of the resolved domain has fewer than two rows, \<open>loadCSV\<close>
  fails with the error "CSV file too short" and \<open>Search\<close> returns that error and no
  result, whatever the query, the sort and \<open>maxResults\<close> are; and every error of
  \<open>loadCSV\<close> is the outcome of \<open>Search\<close>.
\<close>

theorem Search_too_short:
  assumes "map_of DomainConfigs (if domain = [] then DetectDomain order query else domain) = Some config"
  shows "(store dataDir (File config) = Inr records \<and> length records < 2 \<longrightarrow>
            loadCSV (store dataDir (File config)) = Inl CSVTooShort
          \<and> Search srt order store dataDir query domain maxResults = Inl CSVTooShort)
       \<and> (loadCSV (store dataDir (File config)) = Inl err \<longrightarrow>
            Search srt order store dataDir query domain maxResults = Inl err)"
proof (intro conjI impI)
  assume err: "loadCSV (store dataDir (File config)) = Inl err"
  with assms show "Search srt order store dataDir query domain maxResults = Inl err"
    by (simp add: Search_def Let_def)
next
  assume short: "store dataDir (File config) = Inr records \<and> length records < 2"
  then show load: "loadCSV (store dataDir (File config)) = Inl CSVTooShort"
    by (auto simp: loadCSV_def split: list.splits)
  with assms show "Search srt order store dataDir query domain maxResults = Inl CSVTooShort"
    by (simp add: Search_def Let_def)
qed

theorem Search_too_short_witness:
  "map_of DomainConfigs ''risk'' \<noteq> None
   \<and> length [[''Risk Control'', ''Keywords'']] < 2
   \<and> Search isort_by [] (\<lambda>dataDir file. Inr [[''Risk Control'', ''Keywords'']]) ''data'' ''stop loss'' ''risk'' 3
       = Inl CSVTooShort
   \<and> Search isort_by [] (\<lambda>dataDir file. Inl (IOError ''open'')) ''data'' ''stop loss'' ''risk'' 3
       = Inl (IOError ''open'')"
proof -
  obtain config where c: "map_of DomainConfigs ''risk'' = Some config"
    by (simp add: DomainConfigs_def)
  then have c': "map_of DomainConfigs (if ''risk'' = [] then DetectDomain [] ''stop loss'' else ''risk'')
      = Some config"
    by simp
  have l: "length [[''Risk Control'', ''Keywords'']] < 2" by simp
  have one: "Search isort_by [] (\<lambda>dataDir file. Inr [[''Risk Control'', ''Keywords'']]) ''data'' ''stop loss'' ''risk'' 3
       = Inl CSVTooShort"
    using Search_too_short [where store = "\<lambda>dataDir file. Inr [[''Risk Control'', ''Keywords'']]"
      and dataDir = "''data''" and srt = isort_by and maxResults = 3
      and records = "[[''Risk Control'', ''Keywords'']]", OF c', THEN conjunct1]
    by simp
  have two: "Search isort_by [] (\<lambda>dataDir file. Inl (IOError ''open'')) ''data'' ''stop loss'' ''risk'' 3
       = Inl (IOError ''open'')"
    using Search_too_short [where store = "\<lambda>dataDir file. Inl (IOError ''open'')"
      and dataDir = "''data''" and srt = isort_by and maxResults = 3
      and err = "IOError ''open''", OF c', THEN conjunct2]
    by (simp add: loadCSV_def)
  from c l one two show ?thesis by simp
qed

section \<open>Domain detection: proofs\<close>

lemma fold_count:
  "fold (\<lambda>kw score. if P kw then score + 1 else score) kws (s::int) = s + int (length (filter P kws))"
  by (induction kws arbitrary: s) simp_all

lemma keyword_score_count: "keyword_score q kws = int (length (filter (Contains q) kws))"
  by (simp add: keyword_score_def fold_count)


lemma keyword_score_zero_iff: "keyword_score q kws = 0 \<longleftrightarrow> (\<forall>kw\<in>set kws. \<not> Contains q kw)"
  by (auto simp: keyword_score_count filter_empty_conv)

lemma distinct_DomainKeywords: "distinct (map fst DomainKeywords)"
  by (simp add: DomainKeywords_def)

lemma domain_scores_Some:
  assumes "(d, kws) \<in> set DomainKeywords"
  shows "domain_scores q d = Some (keyword_score q kws)"
proof -
  have "map_of DomainKeywords d = Some kws"
    using distinct_DomainKeywords assms by (rule map_of_is_SomeI)
  then show ?thesis
    by (simp add: domain_scores_def map_of_map)
qed

lemma domain_scores_SomeD:
  assumes "domain_scores q d = Some v"
  shows "\<exists>kws. (d, kws) \<in> set DomainKeywords \<and> v = keyword_score q kws"
proof -
  from assms obtain kws where "map_of DomainKeywords d = Some kws" and "v = keyword_score q kws"
    by (auto simp: domain_scores_def map_of_map)
  then show ?thesis
    by (auto dest: map_of_SomeD)
qed

lemma ball_pairD: "\<forall>(d, k)\<in>S. P d k \<Longrightarrow> (d, k) \<in> S \<Longrightarrow> P d k"
  by blast

lemma detect_tiesI:
  assumes "(d1, kws1) \<in> set DomainKeywords" and "(d2, kws2) \<in> set DomainKeywords"
    and "d1 \<noteq> d2" and "0 < keyword_score (ToLower query) kws1"
    and "keyword_score (ToLower query) kws1 = keyword_score (ToLower query) kws2"
    and "\<forall>(d, kws)\<in>set DomainKeywords.
            keyword_score (ToLower query) kws \<le> keyword_score (ToLower query) kws1"
  shows "detect_ties query"
proof -
  have inner: "\<exists>(d2, kws2)\<in>set DomainKeywords.
        d1 \<noteq> d2
      \<and> 0 < keyword_score (ToLower query) kws1
      \<and> keyword_score (ToLower query) kws1 = keyword_score (ToLower query) kws2
      \<and> (\<forall>(d, kws)\<in>set DomainKeywords.
            keyword_score (ToLower query) kws \<le> keyword_score (ToLower query) kws1)"
    using assms(3-6) by (intro bexI [OF _ assms(2)]) simp
  show ?thesis
    unfolding detect_ties_def by (rule bexI [OF _ assms(1)]) (simp add: inner)
qed

lemma best_fold:
  assumes "fold (best_step sc) order (d0, s0) = (d, s)"
  shows "s0 \<le> s \<and> (\<forall>x\<in>set order. \<forall>v. sc x = Some v \<longrightarrow> v \<le> s)
    \<and> ((d, s) = (d0, s0) \<or> (d \<in> set order \<and> sc d = Some s \<and> s0 < s))"
  using assms
proof (induction order arbitrary: d0 s0)
  case Nil
  then show ?case by simp
next
  case (Cons x xs)
  obtain d1 s1 where step: "best_step sc x (d0, s0) = (d1, s1)"
    by (cases "best_step sc x (d0, s0)")
  with Cons.prems have rest: "fold (best_step sc) xs (d1, s1) = (d, s)"
    by simp
  note ih = Cons.IH [OF rest]
  from step have one: "s0 \<le> s1 \<and> (\<forall>v. sc x = Some v \<longrightarrow> v \<le> s1)
      \<and> ((d1, s1) = (d0, s0) \<or> (d1 = x \<and> sc x = Some s1 \<and> s0 < s1))"
    by (auto simp: best_step_def split: option.splits if_splits)
  from ih one show ?case
    by (auto intro: order_trans less_le_trans)
qed

lemma iteration_order_set: "iteration_order order \<Longrightarrow> set order = fst ` set DomainKeywords"
  unfolding iteration_order_def by (metis set_map set_mset_mset)

lemma DetectDomain_none:
  assumes "\<forall>(d, kws)\<in>set DomainKeywords. keyword_score (ToLower query) kws = 0"
  shows "DetectDomain order query = ''strategy''"
proof -
  obtain d s where f: "fold (best_step (domain_scores (ToLower query))) order (''strategy'', 0) = (d, s)"
    by (cases "fold (best_step (domain_scores (ToLower query))) order (''strategy'', 0)")
  from best_fold [OF f] consider "(d, s) = (''strategy'', 0)"
    | "domain_scores (ToLower query) d = Some s" and "0 < s"
    by blast
  then have "s = 0 \<or> d = ''strategy''"
  proof cases
    case 1
    then show ?thesis by simp
  next
    case 2
    from domain_scores_SomeD [OF 2(1)] obtain kws where
      "(d, kws) \<in> set DomainKeywords" and "s = keyword_score (ToLower query) kws"
      by blast
    with ball_pairD [OF assms this(1)] 2(2) show ?thesis by simp
  qed
  with f show ?thesis
    by (auto simp: DetectDomain_def Let_def)
qed

lemma DetectDomain_unique_best:
  assumes ord: "iteration_order order"
    and A: "(A, kwsA) \<in> set DomainKeywords"
    and pos: "0 < keyword_score (ToLower query) kwsA"
    and best: "\<forall>(d, kws)\<in>set DomainKeywords. d \<noteq> A \<longrightarrow>
        keyword_score (ToLower query) kws < keyword_score (ToLower query) kwsA"
  shows "DetectDomain order query = A"
proof -
  let ?sc = "domain_scores (ToLower query)"
  obtain d s where f: "fold (best_step ?sc) order (''strategy'', 0) = (d, s)"
    by (cases "fold (best_step ?sc) order (''strategy'', 0)")
  note bf = best_fold [OF f]
  have "fst (A, kwsA) \<in> fst ` set DomainKeywords"
    using A by (rule imageI)
  then have "A \<in> set order"
    by (simp add: iteration_order_set [OF ord])
  with bf domain_scores_Some [OF A, of "ToLower query"]
  have le: "keyword_score (ToLower query) kwsA \<le> s" by blast
  with pos have s: "0 < s" by linarith
  with bf have d: "?sc d = Some s" by auto
  from domain_scores_SomeD [OF d] obtain kws where
    k: "(d, kws) \<in> set DomainKeywords" "s = keyword_score (ToLower query) kws"
    by blast
  have "d = A"
  proof (rule ccontr)
    assume "d \<noteq> A"
    with ball_pairD [OF best k(1)] k(2) have "s < keyword_score (ToLower query) kwsA" by simp
    with le show False by linarith
  qed
  with f s show ?thesis
    by (auto simp: DetectDomain_def Let_def)
qed




lemma ex_maximal:
  fixes f :: "'a \<Rightarrow> int"
  assumes "xs \<noteq> []"
  shows "\<exists>x\<in>set xs. \<forall>y\<in>set xs. f y \<le> f x"
  using assms
proof (induction xs)
  case Nil
  then show ?case by simp
next
  case (Cons a xs)
  show ?case
  proof (cases "xs = []")
    case True
    then show ?thesis by simp
  next
    case False
    from Cons.IH [OF this] obtain x where x: "x \<in> set xs" "\<forall>y\<in>set xs. f y \<le> f x"
      by blast
    show ?thesis
    proof (cases "f x \<le> f a")
      case True
      with x have "\<forall>y\<in>set (a # xs). f y \<le> f a" by auto
      then show ?thesis by auto
    next
      case False
      with x have "\<forall>y\<in>set (a # xs). f y \<le> f x" by auto
      with x(1) show ?thesis by auto
    qed
  qed
qed

lemma DetectDomain_order_independent:
  assumes o1: "iteration_order order1" and o2: "iteration_order order2"
    and nt: "\<not> detect_ties query"
  shows "DetectDomain order1 query = DetectDomain order2 query"
proof -
  have "DomainKeywords \<noteq> []"
    by (simp add: DomainKeywords_def)
  from ex_maximal [OF this, of "\<lambda>p. keyword_score (ToLower query) (snd p)"] obtain p where
    p: "p \<in> set DomainKeywords"
    and pmx: "\<forall>y\<in>set DomainKeywords.
        keyword_score (ToLower query) (snd y) \<le> keyword_score (ToLower query) (snd p)"
    by blast
  obtain A kwsA where pA: "p = (A, kwsA)" by (cases p)
  from p pA have A: "(A, kwsA) \<in> set DomainKeywords" by simp
  from pmx pA have mx: "\<forall>(d, kws)\<in>set DomainKeywords.
        keyword_score (ToLower query) kws \<le> keyword_score (ToLower query) kwsA"
    by auto
  show ?thesis
  proof (cases "0 < keyword_score (ToLower query) kwsA")
    case True
    have "\<forall>(d, kws)\<in>set DomainKeywords. d \<noteq> A \<longrightarrow>
        keyword_score (ToLower query) kws < keyword_score (ToLower query) kwsA"
    proof (intro ballI, clarify)
      fix d kws assume d: "(d, kws) \<in> set DomainKeywords" "d \<noteq> A"
      have "keyword_score (ToLower query) kws \<noteq> keyword_score (ToLower query) kwsA"
      proof
        assume "keyword_score (ToLower query) kws = keyword_score (ToLower query) kwsA"
        with A d True mx have "detect_ties query"
          by (intro detect_tiesI [of A kwsA d kws]) simp_all
        with nt show False ..
      qed
      moreover from mx d(1) have "keyword_score (ToLower query) kws \<le> keyword_score (ToLower query) kwsA"
        by (rule ball_pairD)
      ultimately show "keyword_score (ToLower query) kws < keyword_score (ToLower query) kwsA"
        by linarith
    qed
    from DetectDomain_unique_best [OF o1 A True this] DetectDomain_unique_best [OF o2 A True this]
    show ?thesis by simp
  next
    case False
    have "\<forall>(d, kws)\<in>set DomainKeywords. keyword_score (ToLower query) kws = 0"
    proof (intro ballI, clarify)
      fix d kws assume "(d, kws) \<in> set DomainKeywords"
      with mx have "keyword_score (ToLower query) kws \<le> keyword_score (ToLower query) kwsA"
        by (rule ball_pairD)
      with False have "keyword_score (ToLower query) kws \<le> 0" by linarith
      moreover have "0 \<le> keyword_score (ToLower query) kws"
        by (simp add: keyword_score_count)
      ultimately show "keyword_score (ToLower query) kws = 0" by linarith
    qed
    from DetectDomain_none [OF this] show ?thesis by simp
  qed
qed

text \<open>
  Claim C3 (as amended).  \<open>Search\<close> does not depend on the order in which the map of
  scores is visited when the domain is given, or when no two domains tie for the highest
  positive keyword count of the query: two calls with the same arguments and the same
  record store then return the same result or the same error.
\<close>

theorem Search_deterministic:
  assumes "iteration_order order1" and "iteration_order order2"
    and "domain \<noteq> [] \<or> \<not> detect_ties query"
  shows "Search srt order1 store dataDir query domain maxResults
       = Search srt order2 store dataDir query domain maxResults"
proof (cases "domain = []")
  case True
  with assms(3) have "\<not> detect_ties query" by simp
  from DetectDomain_order_independent [OF assms(1,2) this] True
  show ?thesis by (simp add: Search_def)
next
  case False
  then show ?thesis by (simp add: Search_def)
qed

section \<open>Example runs\<close>

lemma indicator_config:
  "map_of DomainConfigs ''indicator'' = Some indicator_config"
  "File indicator_config = ''indicators.csv''"
  "SearchCols indicator_config = [''Indicator Name'', ''Category'', ''Keywords'', ''Best For'']"
  by (simp_all add: DomainConfigs_def indicator_config_def)

lemma example_load: "loadCSV (example_store dataDir ''indicators.csv'') = Inr example_rows"
  by (simp add: loadCSV_def example_store_def example_records_def example_rows_def)




















lemma strategy_config:
  "map_of DomainConfigs ''strategy'' = Some strategy_config"
  "File strategy_config = ''strategies.csv''"
  by (simp_all add: DomainConfigs_def strategy_config_def)

lemma iteration_orders: "iteration_order order1" "iteration_order order2"
  by (simp_all add: iteration_order_def order1_def order2_def DomainKeywords_def)

lemma ToLower_examples: "ToLower ''vwap'' = ''vwap''" "ToLower ''RSI'' = ''rsi''" "ToLower ''zzz'' = ''zzz''"
  by (simp_all add: ToLower_def lower_char_def upper_letters_def lower_letters_def)

lemma domain_scores_vwap:
  "domain_scores ''vwap'' ''strategy'' = Some 1"
  "domain_scores ''vwap'' ''indicator'' = Some 1"
  "domain_scores ''vwap'' ''risk'' = Some 0"
  "domain_scores ''vwap'' ''data'' = Some 0"
  "domain_scores ''vwap'' ''anti-pattern'' = Some 0"
  by (simp_all add: domain_scores_def DomainKeywords_def keyword_score_count)

lemma DetectDomain_vwap:
  "DetectDomain order1 ''vwap'' = ''strategy''" "DetectDomain order2 ''vwap'' = ''indicator''"
  by (simp_all add: DetectDomain_def ToLower_examples order1_def order2_def best_step_def
      domain_scores_vwap)

lemma Search_domain_field:
  assumes "map_of DomainConfigs (if domain = [] then DetectDomain order query else domain) = Some config"
    and "loadCSV (store dataDir (File config)) = Inr data"
    and "0 \<le> maxResults"
  shows "map_sum id res_Domain (Search isort_by order store dataDir query domain maxResults)
    = Inr (if domain = [] then DetectDomain order query else domain)"
proof -
  from Search_ranked [of "map (document config) data" query] obtain ranked where
    "Score (Fit (New (Fin 1.5) (Fin 0.75)) (map (document config) data)) query = Inr ranked"
    by blast
  from Search_success [where store = store and dataDir = dataDir, OF isort_by_contract assms this]
  show ?thesis by simp
qed

text \<open>
  The claim as stated fails on a tie.  The query \<open>vwap\<close> contains one keyword of the
  domain \<open>strategy\<close> and one of the domain \<open>indicator\<close>; visiting the map of scores in the
  order \<open>order1\<close> detects \<open>strategy\<close>, in the order \<open>order2\<close> detects \<open>indicator\<close>, and the
  two searches return different results.
\<close>

theorem Search_tie_counterexample:
  "iteration_order order1 \<and> iteration_order order2
   \<and> DetectDomain order1 ''vwap'' = ''strategy''
   \<and> DetectDomain order2 ''vwap'' = ''indicator''
   \<and> map_sum id res_Domain (Search isort_by order1 example_store ''data'' ''vwap'' [] 3) = Inr ''strategy''
   \<and> map_sum id res_Domain (Search isort_by order2 example_store ''data'' ''vwap'' [] 3) = Inr ''indicator''
   \<and> Search isort_by order1 example_store ''data'' ''vwap'' [] 3
       \<noteq> Search isort_by order2 example_store ''data'' ''vwap'' [] 3"
proof -
  have l1: "loadCSV (example_store ''data'' (File strategy_config))
      = Inr [make_row [''Keywords''] [''vwap'']]"
    by (simp add: strategy_config example_store_def loadCSV_def)
  have l2: "loadCSV (example_store ''data'' (File indicator_config)) = Inr example_rows"
    by (simp add: indicator_config example_load)
  have c1: "map_of DomainConfigs (if [] = [] then DetectDomain order1 ''vwap'' else []) = Some strategy_config"
    by (simp add: DetectDomain_vwap strategy_config)
  have c2: "map_of DomainConfigs (if [] = [] then DetectDomain order2 ''vwap'' else []) = Some indicator_config"
    by (simp add: DetectDomain_vwap indicator_config)
  have m: "(0::int) \<le> 3" by simp
  have s1: "map_sum id res_Domain (Search isort_by order1 example_store ''data'' ''vwap'' [] 3) = Inr ''strategy''"
    using Search_domain_field [where store = example_store and dataDir = "''data''", OF c1 l1 m]
    by (simp add: DetectDomain_vwap)
  have s2: "map_sum id res_Domain (Search isort_by order2 example_store ''data'' ''vwap'' [] 3) = Inr ''indicator''"
    using Search_domain_field [where store = example_store and dataDir = "''data''", OF c2 l2 m]
    by (simp add: DetectDomain_vwap)
  have ne: "Search isort_by order1 example_store ''data'' ''vwap'' [] 3
       \<noteq> Search isort_by order2 example_store ''data'' ''vwap'' [] 3"
  proof
    assume "Search isort_by order1 example_store ''data'' ''vwap'' [] 3
       = Search isort_by order2 example_store ''data'' ''vwap'' [] 3"
    with s1 s2 show False by simp
  qed
  show ?thesis
    by (intro conjI iteration_orders DetectDomain_vwap s1 s2 ne)
qed

lemma no_ties_single:
  assumes "\<forall>(d, kws)\<in>set DomainKeywords. d \<noteq> A \<longrightarrow> keyword_score (ToLower query) kws = 0"
  shows "\<not> detect_ties query"
proof
  assume "detect_ties query"
  then obtain d1 kws1 d2 kws2 where
    m: "(d1, kws1) \<in> set DomainKeywords" "(d2, kws2) \<in> set DomainKeywords"
    and ne: "d1 \<noteq> d2"
    and pos: "0 < keyword_score (ToLower query) kws1"
    and eq: "keyword_score (ToLower query) kws1 = keyword_score (ToLower query) kws2"
    unfolding detect_ties_def by blast
  from ball_pairD [OF assms m(1)] pos have "d1 = A" by auto
  moreover from ball_pairD [OF assms m(2)] pos eq have "d2 = A" by auto
  ultimately show False using ne by simp
qed

lemma others_RSI:
  "list_all (\<lambda>(d, kws). d = ''indicator'' \<or> list_all (\<lambda>kw. \<not> Contains ''rsi'' kw) kws) DomainKeywords"
  by (simp add: DomainKeywords_def)


lemma detect_ties_examples: "\<not> detect_ties ''RSI''" "detect_ties ''vwap''"
proof -
  have "\<forall>(d, kws)\<in>set DomainKeywords. d \<noteq> ''indicator'' \<longrightarrow> keyword_score (ToLower ''RSI'') kws = 0"
    using others_RSI unfolding list_all_iff keyword_score_zero_iff ToLower_examples by blast
  then show "\<not> detect_ties ''RSI''" by (rule no_ties_single)
  obtain kws1 where k1: "(''strategy'', kws1) \<in> set DomainKeywords" "keyword_score ''vwap'' kws1 = 1"
    by (simp add: DomainKeywords_def keyword_score_count)
  obtain kws2 where k2: "(''indicator'', kws2) \<in> set DomainKeywords" "keyword_score ''vwap'' kws2 = 1"
    by (simp add: DomainKeywords_def keyword_score_count)
  have mx: "\<forall>(d, kws)\<in>set DomainKeywords. keyword_score ''vwap'' kws \<le> 1"
    by (simp add: DomainKeywords_def keyword_score_count)
  show "detect_ties ''vwap''"
    using mx by (intro detect_tiesI [OF k1(1) k2(1)]) (simp_all add: ToLower_examples k1 k2)
qed

theorem Search_deterministic_witness:
  "iteration_order order1 \<and> iteration_order order2
   \<and> \<not> detect_ties ''RSI''
   \<and> Search isort_by order1 example_store ''data'' ''RSI'' [] 3
       = Search isort_by order2 example_store ''data'' ''RSI'' [] 3
   \<and> detect_ties ''vwap'' \<and> ''indicator'' \<noteq> []
   \<and> Search isort_by order1 example_store ''data'' ''vwap'' ''indicator'' 3
       = Search isort_by order2 example_store ''data'' ''vwap'' ''indicator'' 3"
proof -
  have a: "[] \<noteq> [] \<or> \<not> detect_ties ''RSI''"
    by (simp add: detect_ties_examples)
  have b: "''indicator'' \<noteq> [] \<or> \<not> detect_ties ''vwap''"
    by simp
  have n: "''indicator'' \<noteq> []" by simp
  show ?thesis
    by (intro conjI iteration_orders detect_ties_examples n
        Search_deterministic [OF iteration_orders a] Search_deterministic [OF iteration_orders b])
qed


end
